theory Spec2Isabelle
  imports Complex_Main
begin

section \<open>Python values used by the application\<close>

text \<open>
  The exceptions the modelled code raises itself or receives from the operating system and
  from the progress bar of the page.
  An exception of the inference engine is not modelled: none of the functions below catches
  one, so it would leave each of them unchanged.
\<close>

datatype error =
    ZeroDivisionError
  | FileNotFoundError
  | CalledProcessError
  | PermissionError
  | SameFileError
  | StreamlitAPIException

text \<open>
  A Python \<open>dict\<close> keeps its keys in insertion order; it is an association list whose keys
  are pairwise different. \<open>dict_get d k v\<close> is \<open>d.get(k, v)\<close>, \<open>dict_set k v d\<close> is
  \<open>d[k] = v\<close>: an existing key keeps its place, a new key goes to the end.
\<close>

type_synonym ('k, 'v) dict = "('k \<times> 'v) list"

definition dict_get :: "('k, 'v) dict \<Rightarrow> 'k \<Rightarrow> 'v \<Rightarrow> 'v" where
  "dict_get d k v = (case map_of d k of None \<Rightarrow> v | Some w \<Rightarrow> w)"

fun dict_set :: "'k \<Rightarrow> 'v \<Rightarrow> ('k, 'v) dict \<Rightarrow> ('k, 'v) dict" where
  "dict_set k v [] = [(k, v)]"
| "dict_set k v (p # ps) = (if fst p = k then (k, v) # ps else p # dict_set k v ps)"

definition keys :: "('k, 'v) dict \<Rightarrow> 'k list" where
  "keys d = map fst d"

text \<open>\<open>str(n)\<close> and the \<open>{n}\<close> of an f-string, for an integer: decimal digits, with a sign.\<close>

definition digit_char :: "nat \<Rightarrow> char" where
  "digit_char d = char_of (48 + d)"

fun str_nat :: "nat \<Rightarrow> string" where
  "str_nat n = (if n < 10 then [digit_char n] else str_nat (n div 10) @ [digit_char (n mod 10)])"

declare str_nat.simps [simp del]

definition str_int :: "int \<Rightarrow> string" where
  "str_int i = (if i < 0 then CHR ''-'' # str_nat (nat (- i)) else str_nat (nat i))"

section \<open>config.py\<close>

record DetectionClass =
  id' :: int
  name :: string
  emoji :: string

text \<open>The two glyphs are the UTF-8 bytes of U+1F464 and U+1F697.\<close>

definition DETECTION_CLASSES :: "(int, DetectionClass) dict" where
  "DETECTION_CLASSES =
     [(0, \<lparr>id' = 0, name = ''Human'',
           emoji = [char_of (0xF0::nat), char_of (0x9F::nat), char_of (0x91::nat), char_of (0xA4::nat)]\<rparr>),
      (1, \<lparr>id' = 1, name = ''Car'',
           emoji = [char_of (0xF0::nat), char_of (0x9F::nat), char_of (0x9A::nat), char_of (0x97::nat)]\<rparr>)]"

definition get_class_name :: "int \<Rightarrow> string" where
  "get_class_name class_id =
     (case map_of DETECTION_CLASSES class_id of
        Some detection_class \<Rightarrow> name detection_class
      | None \<Rightarrow> ''Class '' @ str_int class_id)"

definition get_all_class_ids :: "int list" where
  "get_all_class_ids = keys DETECTION_CLASSES"

section \<open>services/detection\_service.py: the single-frame detector\<close>

text \<open>
  A detection box as the inference engine returns it. \<open>cls\<close> is the class index the code
  reads with \<open>int(box.cls[0])\<close>; the score and the corners are carried along and never read.
\<close>

record box =
  cls :: int
  conf :: rat
  xyxy :: "rat list"

text \<open>
  \<open>results[0]\<close> of a \<open>predict\<close> call on one frame: \<open>plot\<close> is the annotated frame that
  \<open>results[0].plot()\<close> renders, \<open>boxes\<close> is \<open>results[0].boxes\<close>, which may be \<open>None\<close>.
  The model is the engine's \<open>predict(source, conf, classes)\<close>.
\<close>

record 'f prediction =
  plot :: 'f
  boxes :: "box list option"

type_synonym 'f yolo = "'f \<Rightarrow> rat \<Rightarrow> int list option \<Rightarrow> 'f prediction"

record 'f detector =
  model :: "'f yolo"
  confidence :: rat
  classes :: "int list option"

type_synonym stats = "(string, int) dict"

text \<open>The \<open>for box in detections\<close> loop of \<open>_extract_statistics\<close>, on the table built so far.\<close>

fun count_boxes :: "box list \<Rightarrow> stats \<Rightarrow> stats" where
  "count_boxes [] stats = stats"
| "count_boxes (b # bs) stats =
     (let class_id = cls b;
          class_name = get_class_name class_id
      in count_boxes bs (dict_set class_name (dict_get stats class_name 0 + 1) stats))"

definition extract_statistics :: "box list option \<Rightarrow> stats" where
  "extract_statistics detections =
     (case detections of
        None \<Rightarrow> []
      | Some bs \<Rightarrow> if length bs = 0 then [] else count_boxes bs [])"

text \<open>Python's truth value of \<open>self._classes\<close>: \<open>None\<close> and the empty list are false.\<close>

fun truthy :: "int list option \<Rightarrow> bool" where
  "truthy None = False"
| "truthy (Some []) = False"
| "truthy (Some (c # cs)) = True"

definition run_inference :: "'f detector \<Rightarrow> 'f \<Rightarrow> 'f \<times> stats" where
  "run_inference det frame =
     (let results = model det frame (confidence det)
                      (if truthy (classes det) then classes det else None);
          annotated = plot results;
          statistics = extract_statistics (boxes results)
      in (annotated, statistics))"

text \<open>The boxes of a result, none when the engine hands back \<open>None\<close>.\<close>

definition boxes_of :: "box list option \<Rightarrow> box list" where
  "boxes_of detections = (case detections of None \<Rightarrow> [] | Some bs \<Rightarrow> bs)"

record 'f DetectionResult =
  annotated_frame :: 'f
  statistics :: stats

definition image_detect :: "'f detector \<Rightarrow> 'f \<Rightarrow> 'f DetectionResult" where
  "image_detect det img =
     (let (annotated, statistics) = run_inference det img
      in \<lparr>annotated_frame = annotated, statistics = statistics\<rparr>)"

section \<open>The operating system, the video library and the page\<close>

text \<open>
  The file system maps a path to the bytes stored there. \<open>undeletable\<close> holds the paths
  whose removal the system refuses (a file another process holds open, a directory
  without write permission). \<open>tmp_counter\<close> numbers the temporary files handed out.
  The transcoder is the \<open>ffmpeg\<close> executable: absent, or a program that reads the input
  (if there is one), leaves bytes at the output path and exits with status zero or not.
\<close>

type_synonym bytes = "char list"

datatype exit_status = Exit0 bytes | ExitNonzero bytes

datatype transcoder = NotInstalled | Installed "bytes option \<Rightarrow> exit_status"

record os_state =
  files :: "string \<rightharpoonup> bytes"
  undeletable :: "string set"
  tmp_counter :: nat
  ffmpeg :: transcoder

text \<open>
  \<open>tempfile.NamedTemporaryFile(delete=False, suffix=s).name\<close>: a new, empty file. The
  platform picks a path that is not in use; here the paths are numbered, and a statement that
  needs the new path to differ from another one says so.
\<close>

definition tmp_name :: "os_state \<Rightarrow> string \<Rightarrow> string" where
  "tmp_name w suffix = ''/tmp/tmp'' @ str_nat (tmp_counter w) @ suffix"

definition NamedTemporaryFile :: "os_state \<Rightarrow> string \<Rightarrow> string \<times> os_state" where
  "NamedTemporaryFile w suffix =
     (let p = tmp_name w suffix
      in (p, w\<lparr>files := (files w)(p \<mapsto> []), tmp_counter := tmp_counter w + 1\<rparr>))"

definition os_path_exists :: "os_state \<Rightarrow> string \<Rightarrow> bool" where
  "os_path_exists w p = (files w p \<noteq> None)"

definition os_unlink :: "os_state \<Rightarrow> string \<Rightarrow> (error + unit) \<times> os_state" where
  "os_unlink w p =
     (if files w p = None then (Inl FileNotFoundError, w)
      else if p \<in> undeletable w then (Inl PermissionError, w)
      else (Inr (), w\<lparr>files := (files w)(p := None)\<rparr>))"

definition shutil_copy :: "os_state \<Rightarrow> string \<Rightarrow> string \<Rightarrow> (error + unit) \<times> os_state" where
  "shutil_copy w src dst =
     (case files w src of
        None \<Rightarrow> (Inl FileNotFoundError, w)
      | Some content \<Rightarrow>
          if src = dst then (Inl SameFileError, w)
          else (Inr (), w\<lparr>files := (files w)(dst \<mapsto> content)\<rparr>))"

text \<open>\<open>subprocess.run(['ffmpeg', ...], check=True, capture_output=True)\<close>.\<close>

definition subprocess_run_ffmpeg ::
  "os_state \<Rightarrow> string \<Rightarrow> string \<Rightarrow> (error + unit) \<times> os_state" where
  "subprocess_run_ffmpeg w input_path output_path =
     (case ffmpeg w of
        NotInstalled \<Rightarrow> (Inl FileNotFoundError, w)
      | Installed run \<Rightarrow>
          (case run (files w input_path) of
             Exit0 written \<Rightarrow> (Inr (), w\<lparr>files := (files w)(output_path \<mapsto> written)\<rparr>)
           | ExitNonzero written \<Rightarrow>
               (Inl CalledProcessError, w\<lparr>files := (files w)(output_path \<mapsto> written)\<rparr>)))"

text \<open>
  An opened video: the frames still to be read and the properties the container reports.
  The properties are the values after \<open>int(cap.get(...))\<close>. \<open>cap.read()\<close> hands out the
  next frame or reports that there is none.
\<close>

record 'f capture =
  is_opened :: bool
  pending :: "'f list"
  prop_fps :: int
  prop_width :: int
  prop_height :: int
  prop_frame_count :: int

record 'f cv2 =
  VideoCapture :: "bytes option \<Rightarrow> 'f capture"
  VideoWriter_encode :: "'f list \<Rightarrow> bytes"

text \<open>The frames \<open>cap.read()\<close> returns with \<open>ret = True\<close> while \<open>cap.isOpened()\<close> holds.\<close>

definition readable :: "'f capture \<Rightarrow> 'f list" where
  "readable cap = (if is_opened cap then pending cap else [])"

text \<open>
  The page: every value the progress bar was set to and every status line, in order.
  \<open>st.progress(0)\<close> creates the bar at 0; emptying a widget removes it from the page and
  reports nothing.
\<close>

record ui =
  progress_values :: "rat list"
  status_texts :: "string list"

section \<open>services/detection\_service.py: the video pipeline\<close>

record video_props =
  fps :: int
  width :: int
  height :: int
  total_frames :: int

definition get_video_properties :: "'f capture \<Rightarrow> video_props" where
  "get_video_properties cap =
     \<lparr>fps = prop_fps cap, width = prop_width cap, height = prop_height cap,
      total_frames = prop_frame_count cap\<rparr>"

text \<open>The loop over \<open>frame_stats.items()\<close> of \<open>_merge_statistics\<close>, updating \<open>total\<close>
  (\<open>total'\<close> here and below: \<open>total\<close> is a constant of the logic).\<close>

fun merge_statistics :: "stats \<Rightarrow> stats \<Rightarrow> stats" where
  "merge_statistics total' [] = total'"
| "merge_statistics total' ((class_name, count) # items) =
     merge_statistics (dict_set class_name (dict_get total' class_name 0 + count) total') items"

text \<open>Every count of a table is strictly positive.\<close>

definition positive_counts :: "stats \<Rightarrow> bool" where
  "positive_counts d = list_all (\<lambda>(class_name, count). 0 < count) d"

text \<open>
  \<open>current / total\<close> is Python's true division of two integers: it raises for a zero
  divisor and is otherwise the quotient, kept here as a rational number.
  \<open>progress_bar.progress(x)\<close> accepts a float between 0.0 and 1.0 and raises for any other;
  the status line is written after it, so a refused value leaves the page as it was.
\<close>

definition update_progress :: "ui \<Rightarrow> int \<Rightarrow> int \<Rightarrow> error + ui" where
  "update_progress page current total' =
     (if total' = 0 then Inl ZeroDivisionError
      else
        (let progress = of_int current / of_int total'
         in if progress < 0 \<or> 1 < progress then Inl StreamlitAPIException
            else Inr (page\<lparr>progress_values := progress_values page @ [progress],
                        status_texts := status_texts page @
                          [''Processing: '' @ str_int current @ ''/'' @ str_int total' @ '' frames'']\<rparr>)))"

text \<open>
  The state of the drain loop: the frames written to the sink so far, the page, the running
  totals and the frame counter.
\<close>

record 'f drain_state =
  out :: "'f list"
  page :: ui
  total_stats :: stats
  frame_count :: int

text \<open>
  The \<open>while cap.isOpened()\<close> loop, by recursion on the frames the capture still hands out:
  the empty list is the read that fails and breaks out of the loop.
\<close>

fun drain :: "'f detector \<Rightarrow> int \<Rightarrow> 'f list \<Rightarrow> 'f drain_state \<Rightarrow> (error + unit) \<times> 'f drain_state" where
  "drain det total' [] s = (Inr (), s)"
| "drain det total' (frame # rest) s =
     (let (annotated, frame_stats) = run_inference det frame;
          s1 = s\<lparr>out := out s @ [annotated]\<rparr>;
          s2 = s1\<lparr>total_stats := merge_statistics (total_stats s1) frame_stats\<rparr>;
          s3 = s2\<lparr>frame_count := frame_count s2 + 1\<rparr>
      in case update_progress (page s3) (frame_count s3) total' of
           Inl e \<Rightarrow> (Inl e, s3)
         | Inr page' \<Rightarrow> drain det total' rest (s3\<lparr>page := page'\<rparr>))"

definition process_frames ::
  "'f detector \<Rightarrow> 'f capture \<Rightarrow> 'f list \<Rightarrow> int \<Rightarrow> ui \<Rightarrow> (error + stats) \<times> 'f drain_state" where
  "process_frames det cap sink total' page0 =
     (let progress_bar = page0\<lparr>progress_values := progress_values page0 @ [0]\<rparr>;
          s0 = \<lparr>out = sink, page = progress_bar, total_stats = [], frame_count = 0\<rparr>
      in case drain det total' (readable cap) s0 of
           (Inl e, s) \<Rightarrow> (Inl e, s)
         | (Inr u, s) \<Rightarrow> (Inr (total_stats s), s))"

definition convert_to_h264 :: "os_state \<Rightarrow> string \<Rightarrow> (error + string) \<times> os_state" where
  "convert_to_h264 w input_path =
     (let (output_path, w1) = NamedTemporaryFile w ''.mp4''
      in case subprocess_run_ffmpeg w1 input_path output_path of
           (Inr u, w2) \<Rightarrow> (Inr output_path, w2)
         | (Inl e, w2) \<Rightarrow>
             if e = CalledProcessError \<or> e = FileNotFoundError then
               (case shutil_copy w2 input_path output_path of
                  (Inl e', w3) \<Rightarrow> (Inl e', w3)
                | (Inr u, w3) \<Rightarrow> (Inr output_path, w3))
             else (Inl e, w2))"

text \<open>The transcoder is absent, or it exits with a failure status on this input.\<close>

definition transcode_fails :: "os_state \<Rightarrow> string \<Rightarrow> bool" where
  "transcode_fails w input_path =
     (case ffmpeg w of
        NotInstalled \<Rightarrow> True
      | Installed run \<Rightarrow>
          (case run (files w input_path) of Exit0 written \<Rightarrow> False | ExitNonzero written \<Rightarrow> True))"

record VideoDetectionResult =
  output_path :: string
  video_statistics :: stats

text \<open>
  \<open>VideoDetector.detect\<close>. The sink's file holds the encoded frames once the writer is
  released; when the frame loop raises, nothing is released and the file stays as created.
\<close>

definition detect ::
  "'f cv2 \<Rightarrow> 'f detector \<Rightarrow> string \<Rightarrow> os_state \<Rightarrow> ui
     \<Rightarrow> (error + VideoDetectionResult) \<times> os_state \<times> ui" where
  "detect cv det video_path w page0 =
     (let cap = VideoCapture cv (files w video_path);
          video_props = get_video_properties cap;
          (temp_output, w1) = NamedTemporaryFile w ''.avi''
      in case process_frames det cap [] (total_frames video_props) page0 of
           (Inl e, s) \<Rightarrow> (Inl e, w1, page s)
         | (Inr totals, s) \<Rightarrow>
             (let w2 = w1\<lparr>files := (files w1)(temp_output \<mapsto> VideoWriter_encode cv (out s))\<rparr>
              in case convert_to_h264 w2 temp_output of
                   (Inl e, w3) \<Rightarrow> (Inl e, w3, page s)
                 | (Inr final_output, w3) \<Rightarrow>
                     if os_path_exists w3 temp_output then
                       (case os_unlink w3 temp_output of
                          (Inl e, w4) \<Rightarrow> (Inl e, w4, page s)
                        | (Inr u, w4) \<Rightarrow>
                            (Inr \<lparr>output_path = final_output, video_statistics = totals\<rparr>,
                             w4, page s))
                     else
                       (Inr \<lparr>output_path = final_output, video_statistics = totals\<rparr>,
                        w3, page s)))"

section \<open>components/video\_processor.py\<close>

text \<open>
  \<open>_cleanup_temp_files\<close>: the body of the loop is inside \<open>try ... except Exception: pass\<close>,
  so a refused removal leaves the file and goes on with the next path.
\<close>

fun cleanup_loop :: "string list \<Rightarrow> os_state \<Rightarrow> os_state" where
  "cleanup_loop [] w = w"
| "cleanup_loop (file_path # file_paths) w =
     (let attempt = (if os_path_exists w file_path then os_unlink w file_path else (Inr (), w))
      in case attempt of
           (Inl e, w') \<Rightarrow> cleanup_loop file_paths w'
         | (Inr u, w') \<Rightarrow> cleanup_loop file_paths w')"

definition cleanup_temp_files :: "os_state \<Rightarrow> string list \<Rightarrow> os_state \<times> string list" where
  "cleanup_temp_files w temp_files = (cleanup_loop temp_files w, [])"

definition save_uploaded_video :: "os_state \<Rightarrow> bytes \<Rightarrow> string \<times> os_state" where
  "save_uploaded_video w uploaded =
     (let (tmp, w1) = NamedTemporaryFile w ''.mp4''
      in (tmp, w1\<lparr>files := (files w1)(tmp \<mapsto> uploaded)\<rparr>))"

text \<open>
  \<open>VideoProcessorComponent.render\<close> for one run of the page: \<open>uploaded_file\<close> is the upload, if
  any, and \<open>clicked\<close> tells whether the start button was pressed. The result is the table the
  page displays, if one is displayed.
\<close>

definition render ::
  "'f cv2 \<Rightarrow> 'f detector \<Rightarrow> bytes option \<Rightarrow> bool \<Rightarrow> os_state \<Rightarrow> ui
     \<Rightarrow> (error + stats option) \<times> os_state \<times> ui" where
  "render cv det uploaded_file clicked w page0 =
     (case uploaded_file of
        None \<Rightarrow> (Inr None, w, page0)
      | Some uploaded \<Rightarrow>
          (let (input_path, w1) = save_uploaded_video w uploaded;
               temp_files = [input_path]
           in if \<not> clicked then
                (Inr None, fst (cleanup_temp_files w1 temp_files), page0)
              else
                (case detect cv det input_path w1 page0 of
                   (Inl e, w2, page2) \<Rightarrow> (Inl e, w2, page2)
                 | (Inr result, w2, page2) \<Rightarrow>
                     (let temp_files2 = temp_files @ [output_path result]
                      in (Inr (Some (video_statistics result)),
                          fst (cleanup_temp_files w2 temp_files2), page2)))))"

section \<open>services/model\_service.py\<close>

text \<open>
  A loaded model is an object with an identity. The runtime counts the objects
  constructed with \<open>YOLO(path)\<close> and the calls of \<open>model.to(device)\<close>; \<open>deserialize\<close> is
  the outcome of \<open>YOLO(path)\<close>: an exception, or none when the file loads.
  \<open>resource_cache\<close> is the table behind the \<open>@st.cache_resource\<close> decorator, which keeps
  the value returned for an argument and hands it out again for the same argument.
\<close>

record yolo_handle =
  object_id :: nat
  weights_path :: string
  device :: "string option"

record model_runtime =
  cuda_is_available :: bool
  deserialize :: "string \<Rightarrow> error option"
  constructed :: nat
  bound_to_device :: nat
  resource_cache :: "string \<rightharpoonup> yolo_handle"

definition get_device :: "model_runtime \<Rightarrow> string" where
  "get_device rt = (if cuda_is_available rt then ''cuda'' else ''cpu'')"

text \<open>The body of \<open>load_model\<close>, as it runs when the decorator finds nothing stored.\<close>

definition load_model_body :: "model_runtime \<Rightarrow> string \<Rightarrow> (error + yolo_handle) \<times> model_runtime" where
  "load_model_body rt model_path =
     (let device = get_device rt
      in case deserialize rt model_path of
           Some e \<Rightarrow> (Inl e, rt)
         | None \<Rightarrow>
             (let m = \<lparr>object_id = constructed rt, weights_path = model_path, device = None\<rparr>;
                  rt1 = rt\<lparr>constructed := constructed rt + 1\<rparr>;
                  m' = m\<lparr>device := Some device\<rparr>;
                  rt2 = rt1\<lparr>bound_to_device := bound_to_device rt1 + 1\<rparr>
              in (Inr m', rt2)))"

definition cache_resource ::
  "(model_runtime \<Rightarrow> string \<Rightarrow> (error + yolo_handle) \<times> model_runtime)
     \<Rightarrow> model_runtime \<Rightarrow> string \<Rightarrow> (error + yolo_handle) \<times> model_runtime" where
  "cache_resource f rt arg =
     (case resource_cache rt arg of
        Some stored \<Rightarrow> (Inr stored, rt)
      | None \<Rightarrow>
          (case f rt arg of
             (Inl e, rt') \<Rightarrow> (Inl e, rt')
           | (Inr m, rt') \<Rightarrow> (Inr m, rt'\<lparr>resource_cache := (resource_cache rt')(arg \<mapsto> m)\<rparr>)))"

definition load_model :: "model_runtime \<Rightarrow> string \<Rightarrow> (error + yolo_handle) \<times> model_runtime" where
  "load_model = cache_resource load_model_body"

section \<open>A stub engine and synthetic videos\<close>

text \<open>
  Concrete collaborators for the scenarios the theorems below are run on. A frame is its
  index; the stub engine tags the annotated frame by adding 100, finds a car (score 0.9) and
  a person (score 0.3) in each of the frames 0 to 4 and nothing afterwards, and applies the
  threshold and the class restriction it is called with.
\<close>

definition stub_boxes :: "nat \<Rightarrow> box list" where
  "stub_boxes frame =
     (if frame < 5 then [\<lparr>cls = 1, conf = 9 / 10, xyxy = []\<rparr>, \<lparr>cls = 0, conf = 3 / 10, xyxy = []\<rparr>]
      else [])"

definition stub_model :: "nat yolo" where
  "stub_model frame threshold selected =
     \<lparr>plot = frame + 100,
      boxes = Some (filter (\<lambda>b. threshold \<le> conf b \<and>
                                 (case selected of None \<Rightarrow> True | Some cs \<Rightarrow> cls b \<in> set cs))
                      (stub_boxes frame))\<rparr>"

definition stub_detector :: "nat detector" where
  "stub_detector = \<lparr>model = stub_model, confidence = 1 / 2, classes = Some []\<rparr>"

definition synthetic_video :: "nat \<Rightarrow> int \<Rightarrow> nat capture" where
  "synthetic_video k n =
     \<lparr>is_opened = True, pending = [0..<k], prop_fps = 30, prop_width = 640, prop_height = 480,
      prop_frame_count = n\<rparr>"

definition blank_page :: ui where
  "blank_page = \<lparr>progress_values = [], status_texts = []\<rparr>"

text \<open>
  A stub video library: the first byte of a stored video is the frame count its container
  reports, every further byte is one frame; a missing or empty file does not open. The stub
  system holds one uploaded video. The stub runtime has no accelerator and one model file.
\<close>

definition stub_cv :: "nat cv2" where
  "stub_cv =
     \<lparr>VideoCapture = (\<lambda>stored.
        (case stored of
           Some (header # frames) \<Rightarrow>
             \<lparr>is_opened = True, pending = map of_char frames, prop_fps = 30, prop_width = 640,
              prop_height = 480, prop_frame_count = int (of_char header)\<rparr>
         | _ \<Rightarrow>
             \<lparr>is_opened = False, pending = [], prop_fps = 0, prop_width = 0, prop_height = 0,
              prop_frame_count = 0\<rparr>)),
      VideoWriter_encode = (\<lambda>frames. char_of (length frames) # map char_of frames)\<rparr>"

definition stub_os :: "bytes \<Rightarrow> string set \<Rightarrow> transcoder \<Rightarrow> os_state" where
  "stub_os video locked tool =
     \<lparr>files = [''/upload.mp4'' \<mapsto> video], undeletable = locked, tmp_counter = 0, ffmpeg = tool\<rparr>"

definition stub_runtime :: model_runtime where
  "stub_runtime =
     \<lparr>cuda_is_available = False,
      deserialize = (\<lambda>model_path. if model_path = ''models/best.pt'' then None else Some FileNotFoundError),
      constructed = 0, bound_to_device = 0, resource_cache = Map.empty\<rparr>"

section \<open>Dictionaries\<close>

lemma map_of_dict_set: "map_of (dict_set k v d) = (map_of d)(k \<mapsto> v)"
  by (induction d) (auto simp: fun_eq_iff)

lemma dict_get_dict_set:
  "dict_get (dict_set k v d) k' w = (if k' = k then v else dict_get d k' w)"
  by (simp add: dict_get_def map_of_dict_set)

lemma keys_dict_set: "set (keys (dict_set k v d)) = insert k (set (keys d))"
  by (induction d) (auto simp: keys_def)

lemma distinct_dict_set: "distinct (keys d) \<Longrightarrow> distinct (keys (dict_set k v d))"
proof (induction d)
  case Nil
  then show ?case by (simp add: keys_def)
next
  case (Cons p ps)
  have "fst p \<notin> set (keys (dict_set k v ps))" if "fst p \<noteq> k"
    using that Cons.prems by (simp add: keys_dict_set) (simp add: keys_def)
  with Cons show ?case by (auto simp: keys_def)
qed

lemma dict_get_absent: "k \<notin> set (keys d) \<Longrightarrow> dict_get d k v = v"
  by (simp add: dict_get_def keys_def map_of_eq_None_iff [THEN iffD2])

lemma dict_get_present:
  "distinct (keys d) \<Longrightarrow> (k, v) \<in> set d \<Longrightarrow> dict_get d k w = v"
  by (simp add: dict_get_def keys_def)

lemma dict_get_Nil: "dict_get [] k v = v"
  by (simp add: dict_get_def)

section \<open>Statistics of one frame\<close>

lemma distinct_count_boxes: "distinct (keys st) \<Longrightarrow> distinct (keys (count_boxes bs st))"
  by (induction bs arbitrary: st) (simp_all add: Let_def distinct_dict_set)

lemma dict_get_count_boxes:
  "dict_get (count_boxes bs st) n 0 =
     dict_get st n 0 + int (length (filter (\<lambda>b. get_class_name (cls b) = n) bs))"
  by (induction bs arbitrary: st) (simp_all add: Let_def dict_get_dict_set)

lemma keys_count_boxes:
  "set (keys (count_boxes bs st)) = set (keys st) \<union> (\<lambda>b. get_class_name (cls b)) ` set bs"
  by (induction bs arbitrary: st) (auto simp: Let_def keys_dict_set)

lemma extract_statistics_eq: "extract_statistics detections = count_boxes (boxes_of detections) []"
  by (auto simp: extract_statistics_def boxes_of_def split: option.splits)

lemma get_class_name_unregistered:
  "class_id \<notin> set (keys DETECTION_CLASSES) \<Longrightarrow> get_class_name class_id = ''Class '' @ str_int class_id"
  by (auto simp: get_class_name_def keys_def DETECTION_CLASSES_def)

lemma get_class_name_registered:
  "class_id \<in> set (keys DETECTION_CLASSES) \<Longrightarrow>
     \<exists>d. (class_id, d) \<in> set DETECTION_CLASSES \<and> get_class_name class_id = name d"
  by (auto simp: get_class_name_def keys_def DETECTION_CLASSES_def)

lemma placeholder_not_registered:
  "(c, d) \<in> set DETECTION_CLASSES \<Longrightarrow> ''Class '' @ s \<noteq> name d"
  by (auto simp: DETECTION_CLASSES_def)

text \<open>
  Claim C1. For every list of detection boxes (or \<open>None\<close>) given to \<open>_extract_statistics\<close>,
  the count the table holds for a display name (0 when the name is not a key) is the number
  of boxes whose class identifier resolves to that name, and the table is a dictionary: no
  key occurs twice. \<open>get_class_name\<close> answers for every identifier: a registered identifier
  gets the name of its registry entry, any other identifier \<open>N\<close> gets \<open>Class N\<close>, which is
  the name of no registry entry.
\<close>

theorem extract_statistics_counts:
  "dict_get (extract_statistics detections) display_name 0 =
     int (length (filter (\<lambda>b. get_class_name (cls b) = display_name) (boxes_of detections)))
   \<and> distinct (keys (extract_statistics detections))
   \<and> (class_id \<in> set (keys DETECTION_CLASSES) \<longrightarrow>
        (\<exists>d. (class_id, d) \<in> set DETECTION_CLASSES \<and> get_class_name class_id = name d))
   \<and> (class_id \<notin> set (keys DETECTION_CLASSES) \<longrightarrow>
        get_class_name class_id = ''Class '' @ str_int class_id
        \<and> (\<forall>(c, d) \<in> set DETECTION_CLASSES. get_class_name class_id \<noteq> name d))"
proof (intro conjI impI)
  show "dict_get (extract_statistics detections) display_name 0 =
     int (length (filter (\<lambda>b. get_class_name (cls b) = display_name) (boxes_of detections)))"
    by (simp add: extract_statistics_eq dict_get_count_boxes dict_get_Nil)
  show "distinct (keys (extract_statistics detections))"
    unfolding extract_statistics_eq by (rule distinct_count_boxes) (simp add: keys_def)
next
  assume "class_id \<in> set (keys DETECTION_CLASSES)"
  then show "\<exists>d. (class_id, d) \<in> set DETECTION_CLASSES \<and> get_class_name class_id = name d"
    by (rule get_class_name_registered)
next
  assume new: "class_id \<notin> set (keys DETECTION_CLASSES)"
  then show "get_class_name class_id = ''Class '' @ str_int class_id"
    by (rule get_class_name_unregistered)
  show "\<forall>(c, d) \<in> set DETECTION_CLASSES. get_class_name class_id \<noteq> name d"
    using placeholder_not_registered by (auto simp: get_class_name_unregistered [OF new])
qed

theorem extract_statistics_counts_witness:
  "dict_get (extract_statistics (Some [\<lparr>cls = 0, conf = 9/10, xyxy = []\<rparr>, \<lparr>cls = 7, conf = 3/4, xyxy = []\<rparr>,
       \<lparr>cls = 0, conf = 1/2, xyxy = []\<rparr>])) ''Human'' 0 = 2
   \<and> (7::int) \<notin> set (keys DETECTION_CLASSES)
   \<and> get_class_name 7 = ''Class 7''
   \<and> get_class_name 7 \<noteq> ''Human'' \<and> get_class_name 7 \<noteq> ''Car''
   \<and> (1::int) \<in> set (keys DETECTION_CLASSES) \<and> get_class_name 1 = ''Car''"
proof -
  have s7: "str_int 7 = ''7''" by code_simp
  have n0: "get_class_name 0 = ''Human''" and n1: "get_class_name 1 = ''Car''"
    by (simp_all add: get_class_name_def DETECTION_CLASSES_def)
  have k7: "(7::int) \<notin> set (keys DETECTION_CLASSES)" and k1: "(1::int) \<in> set (keys DETECTION_CLASSES)"
    by (simp_all add: keys_def DETECTION_CLASSES_def)
  have n7: "get_class_name 7 = ''Class 7''"
    using extract_statistics_counts [of None "''Human''" 7] k7 s7 by simp
  show ?thesis
    using extract_statistics_counts [of "Some [\<lparr>cls = 0, conf = 9/10, xyxy = []\<rparr>, \<lparr>cls = 7, conf = 3/4, xyxy = []\<rparr>,
       \<lparr>cls = 0, conf = 1/2, xyxy = []\<rparr>]" "''Human''" 7] k7 k1 n0 n1 n7
    by (simp add: boxes_of_def)
qed

section \<open>Merging the tables of the frames\<close>

lemma dict_get_merge_statistics:
  "distinct (keys fs) \<Longrightarrow>
     dict_get (merge_statistics tot fs) n 0 = dict_get tot n 0 + dict_get fs n 0"
proof (induction fs arbitrary: tot)
  case Nil
  then show ?case by (simp add: dict_get_Nil)
next
  case (Cons item items)
  obtain k c where item: "item = (k, c)" by (cases item)
  from Cons.prems item have fresh: "k \<notin> set (keys items)" and rest: "distinct (keys items)"
    by (simp_all add: keys_def)
  have "dict_get (merge_statistics tot (item # items)) n 0 =
          dict_get (dict_set k (dict_get tot k 0 + c) tot) n 0 + dict_get items n 0"
    using Cons.IH [OF rest] item by simp
  also have "\<dots> = dict_get tot n 0 + dict_get (item # items) n 0"
  proof (cases "n = k")
    case True
    with fresh have "dict_get items n 0 = 0" by (simp add: dict_get_absent)
    with True item show ?thesis by (simp add: dict_get_dict_set) (simp add: dict_get_def)
  next
    case False
    with item show ?thesis by (simp add: dict_get_dict_set) (simp add: dict_get_def)
  qed
  finally show ?case .
qed

lemma keys_merge_statistics:
  "set (keys (merge_statistics tot fs)) = set (keys tot) \<union> set (keys fs)"
proof (induction fs arbitrary: tot)
  case Nil
  then show ?case by (simp add: keys_def)
next
  case (Cons item items)
  obtain k c where item: "item = (k, c)" by (cases item)
  have "set (keys (item # items)) = insert k (set (keys items))"
    using item by (simp add: keys_def)
  with Cons.IH item show ?case by (simp add: keys_dict_set)
qed

lemma distinct_merge_statistics:
  "distinct (keys tot) \<Longrightarrow> distinct (keys (merge_statistics tot fs))"
proof (induction fs arbitrary: tot)
  case Nil
  then show ?case by simp
next
  case (Cons item items)
  obtain k c where item: "item = (k, c)" by (cases item)
  with Cons show ?case by (simp add: distinct_dict_set)
qed

lemma distinct_extract_statistics: "distinct (keys (extract_statistics detections))"
  unfolding extract_statistics_eq by (rule distinct_count_boxes) (simp add: keys_def)

lemma distinct_run_inference: "distinct (keys (snd (run_inference det frame)))"
  by (simp add: run_inference_def Let_def distinct_extract_statistics)

lemma update_progress_accepted:
  assumes "0 < total'" and "0 \<le> current" and "current \<le> total'"
  shows "update_progress page1 current total' =
     Inr (page1\<lparr>progress_values := progress_values page1 @ [of_int current / of_int total'],
                status_texts := status_texts page1 @
                  [''Processing: '' @ str_int current @ ''/'' @ str_int total' @ '' frames'']\<rparr>)"
proof -
  from assms have "(of_int current :: rat) \<le> of_int total'" by (simp only: of_int_le_iff)
  with assms have "(of_int current :: rat) / of_int total' \<le> 1" by (simp add: divide_le_eq_1)
  moreover from assms have "0 \<le> (of_int current :: rat) / of_int total'" by simp
  ultimately show ?thesis using assms by (simp add: update_progress_def Let_def not_less)
qed

lemma drain_step:
  "drain det total' (frame # rest) s =
     (case update_progress (page s) (frame_count s + 1) total' of
        Inl e \<Rightarrow>
          (Inl e,
           s\<lparr>out := out s @ [fst (run_inference det frame)],
             total_stats := merge_statistics (total_stats s) (snd (run_inference det frame)),
             frame_count := frame_count s + 1\<rparr>)
      | Inr page' \<Rightarrow>
          drain det total' rest
            (s\<lparr>out := out s @ [fst (run_inference det frame)],
               total_stats := merge_statistics (total_stats s) (snd (run_inference det frame)),
               frame_count := frame_count s + 1,
               page := page'\<rparr>))"
  by (simp add: Let_def split: prod.splits sum.splits)

lemma drain_Cons:
  assumes "0 < total'" and "0 \<le> frame_count s" and "frame_count s + 1 \<le> total'"
  shows "drain det total' (frame # rest) s =
     drain det total' rest
       (s\<lparr>out := out s @ [fst (run_inference det frame)],
          total_stats := merge_statistics (total_stats s) (snd (run_inference det frame)),
          frame_count := frame_count s + 1,
          page := page s
            \<lparr>progress_values :=
               progress_values (page s) @ [of_int (frame_count s + 1) / of_int total'],
             status_texts := status_texts (page s) @
               [''Processing: '' @ str_int (frame_count s + 1) @ ''/'' @ str_int total' @ '' frames'']\<rparr>\<rparr>)"
proof -
  from assms have "0 \<le> frame_count s + 1" by simp
  from update_progress_accepted [OF assms(1) this assms(3)] show ?thesis
    by (simp only: drain_step sum.case)
qed

lemma drain_zero:
  "drain det 0 (frame # rest) s =
     (Inl ZeroDivisionError,
      s\<lparr>out := out s @ [fst (run_inference det frame)],
        total_stats := merge_statistics (total_stats s) (snd (run_inference det frame)),
        frame_count := frame_count s + 1\<rparr>)"
  by (simp add: update_progress_def Let_def split: prod.splits)

declare drain.simps(2) [simp del]

text \<open>
  Whenever the loop ends without an exception, whatever the progress bar accepted on the
  way, the running totals are the tables of all frames merged in order.
\<close>

lemma drain_Inr_total_stats:
  "fst (drain det total' frames s) = Inr u \<Longrightarrow>
     total_stats (snd (drain det total' frames s)) =
       foldl merge_statistics (total_stats s) (map (\<lambda>frame. snd (run_inference det frame)) frames)"
proof (induction frames arbitrary: s)
  case Nil
  then show ?case by simp
next
  case (Cons frame rest)
  show ?case
  proof (cases "update_progress (page s) (frame_count s + 1) total'")
    case (Inl e)
    with Cons.prems show ?thesis by (simp add: drain_step)
  next
    case (Inr page')
    with Cons.prems Cons.IH show ?thesis by (simp add: drain_step)
  qed
qed

text \<open>
  The bar accepts every value of the loop when the advisory count is positive and not below
  the number of frames still to come, counted from the frames already processed.
\<close>

lemma drain_returns:
  "0 < total' \<Longrightarrow> 0 \<le> frame_count s \<Longrightarrow> frame_count s + int (length frames) \<le> total' \<Longrightarrow>
     fst (drain det total' frames s) = Inr ()"
proof (induction frames arbitrary: s)
  case Nil
  then show ?case by simp
next
  case (Cons frame rest)
  from Cons.prems have "frame_count s + 1 \<le> total'" by simp
  with Cons show ?case by (simp add: drain_Cons)
qed

lemma drain_out:
  "0 < total' \<Longrightarrow> 0 \<le> frame_count s \<Longrightarrow> frame_count s + int (length frames) \<le> total' \<Longrightarrow>
     out (snd (drain det total' frames s)) = out s @ map (\<lambda>frame. fst (run_inference det frame)) frames"
proof (induction frames arbitrary: s)
  case Nil
  then show ?case by simp
next
  case (Cons frame rest)
  from Cons.prems have "frame_count s + 1 \<le> total'" by simp
  with Cons show ?case by (simp add: drain_Cons)
qed

lemma drain_frame_count:
  "0 < total' \<Longrightarrow> 0 \<le> frame_count s \<Longrightarrow> frame_count s + int (length frames) \<le> total' \<Longrightarrow>
     frame_count (snd (drain det total' frames s)) = frame_count s + int (length frames)"
proof (induction frames arbitrary: s)
  case Nil
  then show ?case by simp
next
  case (Cons frame rest)
  from Cons.prems have "frame_count s + 1 \<le> total'" by simp
  with Cons show ?case by (simp add: drain_Cons)
qed

lemma drain_progress:
  "0 < total' \<Longrightarrow> 0 \<le> frame_count s \<Longrightarrow> frame_count s + int (length frames) \<le> total' \<Longrightarrow>
     progress_values (page (snd (drain det total' frames s))) =
       progress_values (page s) @
         map (\<lambda>i. of_int (frame_count s + 1 + int i) / of_int total') [0..<length frames]"
proof (induction frames arbitrary: s)
  case Nil
  then show ?case by simp
next
  case (Cons frame rest)
  have upt: "[0..<length (frame # rest)] = 0 # map Suc [0..<length rest]"
    by (simp add: upt_conv_Cons map_Suc_upt del: upt_Suc)
  from Cons.prems have "frame_count s + 1 \<le> total'" by simp
  with Cons show ?case
    unfolding upt by (simp add: drain_Cons comp_def add.assoc)
qed

lemma dict_get_foldl_merge:
  "\<forall>T \<in> set Ts. distinct (keys T) \<Longrightarrow>
     dict_get (foldl merge_statistics tot Ts) n 0 = dict_get tot n 0 + (\<Sum>T\<leftarrow>Ts. dict_get T n 0)"
  by (induction Ts arbitrary: tot) (simp_all add: dict_get_merge_statistics)

lemma keys_foldl_merge:
  "set (keys (foldl merge_statistics tot Ts)) = set (keys tot) \<union> (\<Union>T \<in> set Ts. set (keys T))"
  by (induction Ts arbitrary: tot) (auto simp: keys_merge_statistics)

lemma distinct_foldl_merge:
  "distinct (keys tot) \<Longrightarrow> distinct (keys (foldl merge_statistics tot Ts))"
  by (induction Ts arbitrary: tot) (simp_all add: distinct_merge_statistics)

section \<open>The drain loop as a whole\<close>

lemma process_frames_accepted:
  assumes "0 < total'" and "int (length (readable cap)) \<le> total'"
  shows "process_frames det cap sink total' page0 =
     (Inr (foldl merge_statistics [] (map (\<lambda>frame. snd (run_inference det frame)) (readable cap))),
      snd (drain det total' (readable cap)
            \<lparr>out = sink, page = page0\<lparr>progress_values := progress_values page0 @ [0]\<rparr>,
             total_stats = [], frame_count = 0\<rparr>))"
proof -
  let ?s0 = "\<lparr>out = sink, page = page0\<lparr>progress_values := progress_values page0 @ [0]\<rparr>,
             total_stats = [], frame_count = 0\<rparr>"
  obtain r s where d: "drain det total' (readable cap) ?s0 = (r, s)"
    by (cases "drain det total' (readable cap) ?s0")
  from drain_returns [of total' ?s0 "readable cap" det] assms d have r: "r = Inr ()" by simp
  with drain_Inr_total_stats [of det total' "readable cap" ?s0 "()"] d
  have "total_stats s = foldl merge_statistics [] (map (\<lambda>frame. snd (run_inference det frame)) (readable cap))"
    by simp
  with d r show ?thesis by (simp add: process_frames_def)
qed

lemma process_frames_empty:
  "readable cap = [] \<Longrightarrow>
   process_frames det cap sink total' page0 =
     (Inr [], \<lparr>out = sink, page = page0\<lparr>progress_values := progress_values page0 @ [0]\<rparr>,
               total_stats = [], frame_count = 0\<rparr>)"
  by (simp add: process_frames_def)

lemma process_frames_zero:
  "readable cap = frame # rest \<Longrightarrow>
   process_frames det cap sink 0 page0 =
     (Inl ZeroDivisionError,
      \<lparr>out = sink @ [fst (run_inference det frame)],
       page = page0\<lparr>progress_values := progress_values page0 @ [0]\<rparr>,
       total_stats = merge_statistics [] (snd (run_inference det frame)),
       frame_count = 1\<rparr>)"
  by (simp add: process_frames_def drain_zero)

lemma process_frames_Inr:
  assumes "fst (process_frames det cap sink total' page0) = Inr totals"
  shows "totals = foldl merge_statistics [] (map (\<lambda>frame. snd (run_inference det frame)) (readable cap))"
proof -
  let ?s0 = "\<lparr>out = sink, page = page0\<lparr>progress_values := progress_values page0 @ [0]\<rparr>,
             total_stats = [], frame_count = 0\<rparr>"
  obtain r s where d: "drain det total' (readable cap) ?s0 = (r, s)"
    by (cases "drain det total' (readable cap) ?s0")
  show ?thesis
  proof (cases r)
    case (Inl e)
    with d assms show ?thesis by (simp add: process_frames_def)
  next
    case (Inr u)
    with d assms have "totals = total_stats s" by (simp add: process_frames_def)
    moreover from drain_Inr_total_stats [of det total' "readable cap" ?s0 u] d Inr
    have "total_stats s =
        foldl merge_statistics [] (map (\<lambda>frame. snd (run_inference det frame)) (readable cap))"
      by simp
    ultimately show ?thesis by simp
  qed
qed

text \<open>
  Claim C2. Let \<open>T\<^sub>1, ..., T\<^sub>k\<close> be the tables \<open>_run_inference\<close> produces for the frames the
  capture hands out, in order. \<open>_process_frames\<close> returns a table whenever there is no frame
  to read, or the advisory frame count is positive and not below the number of frames (so
  that the progress bar accepts every value); and whenever it returns a table, the count
  of every class name in it (0 when the name is not a key) is the sum of that name's counts
  over all \<open>T\<^sub>i\<close>, a frame without the name counting 0. The table is a dictionary, and its keys
  are exactly the names that occur in some \<open>T\<^sub>i\<close>.
\<close>

theorem video_cumulative_statistics:
  "(readable cap = [] \<or> (0 < total' \<and> int (length (readable cap)) \<le> total') \<longrightarrow>
      (\<exists>totals. fst (process_frames det cap sink total' page0) = Inr totals))
   \<and> (\<forall>totals. fst (process_frames det cap sink total' page0) = Inr totals \<longrightarrow>
        dict_get totals class_name 0 =
          (\<Sum>T \<leftarrow> map (\<lambda>frame. snd (run_inference det frame)) (readable cap). dict_get T class_name 0)
        \<and> distinct (keys totals)
        \<and> (class_name \<in> set (keys totals) \<longleftrightarrow>
             (\<exists>frame \<in> set (readable cap). class_name \<in> set (keys (snd (run_inference det frame))))))"
proof (intro conjI allI impI)
  assume "readable cap = [] \<or> (0 < total' \<and> int (length (readable cap)) \<le> total')"
  then show "\<exists>totals. fst (process_frames det cap sink total' page0) = Inr totals"
    by (auto simp: process_frames_accepted process_frames_empty)
next
  fix totals
  assume "fst (process_frames det cap sink total' page0) = Inr totals"
  then have totals:
    "totals = foldl merge_statistics [] (map (\<lambda>frame. snd (run_inference det frame)) (readable cap))"
    by (rule process_frames_Inr)
  have tables: "\<forall>T \<in> set (map (\<lambda>frame. snd (run_inference det frame)) (readable cap)). distinct (keys T)"
    by (simp add: distinct_run_inference)
  show "dict_get totals class_name 0 =
          (\<Sum>T \<leftarrow> map (\<lambda>frame. snd (run_inference det frame)) (readable cap). dict_get T class_name 0)"
    unfolding totals dict_get_foldl_merge [OF tables] by (simp add: dict_get_Nil)
  show "distinct (keys totals)"
    unfolding totals by (rule distinct_foldl_merge) (simp add: keys_def)
  show "class_name \<in> set (keys totals) \<longleftrightarrow>
          (\<exists>frame \<in> set (readable cap). class_name \<in> set (keys (snd (run_inference det frame))))"
    unfolding totals keys_foldl_merge by (simp add: keys_def)
qed

theorem video_cumulative_statistics_witness:
  "fst (process_frames stub_detector (synthetic_video 7 7) [] 7 blank_page) = Inr [(''Car'', 5)]
   \<and> (\<Sum>T \<leftarrow> map (\<lambda>frame. snd (run_inference stub_detector frame)) (readable (synthetic_video 7 7)).
         dict_get T ''Car'' 0) = 5
   \<and> ''Car'' \<in> set (keys [(''Car'', 5 :: int)])"
proof -
  have run: "fst (process_frames stub_detector (synthetic_video 7 7) [] 7 blank_page) = Inr [(''Car'', 5)]"
    by code_simp
  have get: "dict_get [(''Car'', 5 :: int)] ''Car'' 0 = 5"
    by (simp add: dict_get_def)
  show ?thesis
    using video_cumulative_statistics [where total' = 7 and cap = "synthetic_video 7 7"
        and det = stub_detector and sink = "[]" and ?page0.0 = blank_page and class_name = "''Car''"]
      run get
    by (simp add: keys_def)
qed

section \<open>Reported progress\<close>

lemma sorted_progress:
  assumes "0 < total'"
  shows "sorted (0 # map (\<lambda>i. (of_int (int i + 1) :: rat) / of_int total') [0..<k])"
proof -
  have mono: "sorted (map (\<lambda>i. (of_int (int i + 1) :: rat) / of_int total') [0..<k])"
    unfolding sorted_map
    by (rule sorted_wrt_mono_rel [of _ "(<)"]) (use assms in \<open>auto simp: divide_le_cancel\<close>)
  have "0 \<le> (of_int (int i + 1) :: rat) / of_int total'" for i
    using assms by simp
  with mono show ?thesis by auto
qed

lemma progress_le_one:
  assumes "0 < total'" "int k \<le> total'"
  shows "\<forall>p \<in> set (0 # map (\<lambda>i. (of_int (int i + 1) :: rat) / of_int total') [0..<k]). p \<le> 1"
proof -
  have "(of_int (int i + 1) :: rat) / of_int total' \<le> 1" if "i < k" for i
  proof -
    from that assms have "int i + 1 \<le> total'" by simp
    then have "(of_int (int i + 1) :: rat) \<le> of_int total'" by (simp only: of_int_le_iff)
    with assms show ?thesis by (simp add: divide_le_eq_1)
  qed
  then show ?thesis by auto
qed

lemma progress_last:
  assumes "0 < total'" "int k = total'"
  shows "last (0 # map (\<lambda>i. (of_int (int i + 1) :: rat) / of_int total') [0..<k]) = 1"
proof -
  from assms obtain j where k: "k = Suc j" by (cases k) auto
  with assms have "int j + 1 = total'" by simp
  then have "(of_int (int j + 1) :: rat) / of_int total' = 1" using assms by simp
  then show ?thesis unfolding k by (simp del: of_int_add)
qed

lemma progress_last_iff:
  assumes "0 < total'" "int k \<le> total'"
  shows "last (0 # map (\<lambda>i. (of_int (int i + 1) :: rat) / of_int total') [0..<k]) = 1
         \<longleftrightarrow> int k = total'"
proof (cases k)
  case 0
  with assms show ?thesis by simp
next
  case (Suc j)
  have l: "last (0 # map (\<lambda>i. (of_int (int i + 1) :: rat) / of_int total') [0..<k]) =
      (of_int (int j + 1) :: rat) / of_int total'"
    unfolding Suc by (simp del: of_int_add)
  have "(of_int (int j + 1) :: rat) / of_int total' = 1 \<longleftrightarrow> (of_int (int j + 1) :: rat) = of_int total'"
    using assms by (auto simp del: of_int_add)
  also have "\<dots> \<longleftrightarrow> int j + 1 = total'"
    by (simp only: of_int_eq_iff)
  also have "\<dots> \<longleftrightarrow> int k = total'"
    unfolding Suc by auto
  finally show ?thesis unfolding l .
qed

text \<open>
  The claim C5 as written fails: the bar shows \<open>frame_count / total_frames\<close>, and the
  advisory count need not be the number of readable frames. A video of two frames whose
  container reports four is processed to the end with the values 0, 1/4, 1/2: the value
  after the last frame is not 1.
\<close>

theorem progress_values_counterexample:
  "fst (process_frames stub_detector (synthetic_video 2 4) [] 4 blank_page) = Inr [(''Car'', 2)]
   \<and> progress_values (page (snd (process_frames stub_detector (synthetic_video 2 4) [] 4 blank_page)))
       = [0, 1 / 4, 1 / 2]
   \<and> last (progress_values (page (snd (process_frames stub_detector (synthetic_video 2 4) [] 4 blank_page))))
       \<noteq> 1"
proof -
  have "fst (process_frames stub_detector (synthetic_video 2 4) [] 4 blank_page) = Inr [(''Car'', 2)]"
    by code_simp
  moreover
  have "progress_values (page (snd (process_frames stub_detector (synthetic_video 2 4) [] 4 blank_page)))
       = [0, 1 / 4, 1 / 2]"
    by code_simp
  ultimately show ?thesis by simp
qed

text \<open>
  Claim C5, amended. For a video of \<open>K\<close> readable frames whose advisory frame count \<open>total\<close> is
  positive and at least \<open>K\<close>, \<open>_process_frames\<close> reports the values
  \<open>0, 1/total, 2/total, ..., K/total\<close> in this order. The sequence is non-decreasing, no value
  exceeds 1, and the value after the last frame is exactly 1 if and only if \<open>K = total\<close>.
\<close>

theorem progress_values_amended:
  assumes "0 < total'" and "int (length (readable cap)) \<le> total'"
  shows "progress_values (page (snd (process_frames det cap sink total' page0))) =
           progress_values page0 @
             0 # map (\<lambda>i. of_int (int i + 1) / of_int total') [0..<length (readable cap)]
         \<and> sorted (0 # map (\<lambda>i. (of_int (int i + 1) :: rat) / of_int total') [0..<length (readable cap)])
         \<and> (\<forall>p \<in> set (0 # map (\<lambda>i. (of_int (int i + 1) :: rat) / of_int total') [0..<length (readable cap)]).
              p \<le> 1)
         \<and> (last (0 # map (\<lambda>i. (of_int (int i + 1) :: rat) / of_int total') [0..<length (readable cap)]) = 1
              \<longleftrightarrow> int (length (readable cap)) = total')"
proof (intro conjI)
  show "progress_values (page (snd (process_frames det cap sink total' page0))) =
           progress_values page0 @
             0 # map (\<lambda>i. of_int (int i + 1) / of_int total') [0..<length (readable cap)]"
    using assms by (simp add: process_frames_accepted drain_progress add.commute)
  show "sorted (0 # map (\<lambda>i. (of_int (int i + 1) :: rat) / of_int total') [0..<length (readable cap)])"
    using assms(1) by (rule sorted_progress)
  show "\<forall>p \<in> set (0 # map (\<lambda>i. (of_int (int i + 1) :: rat) / of_int total') [0..<length (readable cap)]). p \<le> 1"
    using assms by (rule progress_le_one)
  show "last (0 # map (\<lambda>i. (of_int (int i + 1) :: rat) / of_int total') [0..<length (readable cap)]) = 1
          \<longleftrightarrow> int (length (readable cap)) = total'"
    using assms by (rule progress_last_iff)
qed

theorem progress_values_amended_witness:
  "(0::int) < 4
   \<and> int (length (readable (synthetic_video 4 4))) = 4
   \<and> progress_values (page (snd (process_frames stub_detector (synthetic_video 4 4) [] 4 blank_page))) =
       [0, 1 / 4, 1 / 2, 3 / 4, 1]
   \<and> sorted [0, 1 / 4, 1 / 2, 3 / 4, 1 :: rat]
   \<and> last [0, 1 / 4, 1 / 2, 3 / 4, 1 :: rat] = 1"
proof -
  have len: "length (readable (synthetic_video 4 4)) = 4"
    by (simp add: readable_def synthetic_video_def)
  have upt: "[0..<4] = [0, 1, 2, 3]"
    by (simp add: upt_rec)
  show ?thesis
    using progress_values_amended [where total' = 4 and det = stub_detector
        and cap = "synthetic_video 4 4" and sink = "[]" and ?page0.0 = blank_page]
    by (simp add: len upt blank_page_def)
qed

section \<open>Detection with an empty class selection\<close>

lemma run_inference_unrestricted:
  "classes det = None \<or> classes det = Some [] \<Longrightarrow>
     run_inference det frame =
       (plot (model det frame (confidence det) None),
        extract_statistics (boxes (model det frame (confidence det) None)))"
  by (auto simp: run_inference_def Let_def)

text \<open>
  Claim C3. When the selected-class list of the detector is empty (or \<open>None\<close>),
  \<open>_run_inference\<close> calls the engine with \<open>classes=None\<close>, that is with no class restriction,
  for every frame and confidence value. The statistics are taken from the boxes the engine
  returns and from nothing else: for every class name the count is the number of returned
  boxes of that name, so the name of every returned box is a key with a count of at least 1.
\<close>

theorem empty_selection_is_no_filter:
  assumes "classes det = None \<or> classes det = Some []"
  shows "run_inference det frame =
           (plot (model det frame (confidence det) None),
            extract_statistics (boxes (model det frame (confidence det) None)))
         \<and> (\<forall>class_name.
               dict_get (snd (run_inference det frame)) class_name 0 =
                 int (length (filter (\<lambda>b. get_class_name (cls b) = class_name)
                                (boxes_of (boxes (model det frame (confidence det) None))))))
         \<and> (\<forall>b \<in> set (boxes_of (boxes (model det frame (confidence det) None))).
               get_class_name (cls b) \<in> set (keys (snd (run_inference det frame)))
               \<and> 1 \<le> dict_get (snd (run_inference det frame)) (get_class_name (cls b)) 0)"
proof (intro conjI allI ballI)
  let ?r = "model det frame (confidence det) None"
  show run: "run_inference det frame = (plot ?r, extract_statistics (boxes ?r))"
    using assms by (rule run_inference_unrestricted)
  show count: "dict_get (snd (run_inference det frame)) class_name 0 =
      int (length (filter (\<lambda>b. get_class_name (cls b) = class_name) (boxes_of (boxes ?r))))"
    for class_name
    by (simp add: run extract_statistics_eq dict_get_count_boxes dict_get_Nil)
  fix b assume b: "b \<in> set (boxes_of (boxes ?r))"
  then show "get_class_name (cls b) \<in> set (keys (snd (run_inference det frame)))"
    by (simp add: run extract_statistics_eq keys_count_boxes)
  from b have "filter (\<lambda>b'. get_class_name (cls b') = get_class_name (cls b)) (boxes_of (boxes ?r)) \<noteq> []"
    by (auto simp: filter_empty_conv)
  then have "0 < length (filter (\<lambda>b'. get_class_name (cls b') = get_class_name (cls b)) (boxes_of (boxes ?r)))"
    by simp
  then show "1 \<le> dict_get (snd (run_inference det frame)) (get_class_name (cls b)) 0"
    unfolding count by linarith
qed

theorem empty_selection_is_no_filter_witness:
  "classes stub_detector = Some []
   \<and> run_inference stub_detector 0 = (100, [(''Car'', 1)])
   \<and> boxes_of (boxes (model stub_detector 0 (confidence stub_detector) None)) =
       [\<lparr>cls = 1, conf = 9 / 10, xyxy = []\<rparr>]
   \<and> dict_get (snd (run_inference stub_detector 0)) ''Car'' 0 = 1"
proof -
  have sel: "classes stub_detector = Some []"
    by (simp add: stub_detector_def)
  have bs: "boxes_of (boxes (model stub_detector 0 (confidence stub_detector) None)) =
       [\<lparr>cls = 1, conf = 9 / 10, xyxy = []\<rparr>]"
    by (simp add: stub_detector_def stub_model_def stub_boxes_def boxes_of_def)
  have car: "get_class_name 1 = ''Car''"
    by (simp add: get_class_name_def DETECTION_CLASSES_def)
  have st: "extract_statistics (boxes (model stub_detector 0 (confidence stub_detector) None)) = [(''Car'', 1)]"
    by code_simp
  have pl: "plot (model stub_detector 0 (confidence stub_detector) None) = 100"
    by (simp add: stub_detector_def stub_model_def)
  show ?thesis
    using empty_selection_is_no_filter [of stub_detector 0] sel bs car st pl
    by (simp add: dict_get_def)
qed

section \<open>An advisory frame count of zero\<close>

lemma detect_frames_raise:
  assumes "fst (process_frames det (VideoCapture cv (files w video_path)) []
                  (prop_frame_count (VideoCapture cv (files w video_path))) page0) = Inl e"
  shows "fst (detect cv det video_path w page0) = Inl e"
proof -
  obtain r s where p: "process_frames det (VideoCapture cv (files w video_path)) []
                  (prop_frame_count (VideoCapture cv (files w video_path))) page0 = (r, s)"
    by (cases "process_frames det (VideoCapture cv (files w video_path)) []
                  (prop_frame_count (VideoCapture cv (files w video_path))) page0")
  with assms have "r = Inl e" by simp
  with p show ?thesis
    by (simp add: detect_def get_video_properties_def Let_def split: prod.splits)
qed

text \<open>
  Claim C4 says that progress reporting never divides by zero when the container reports
  zero frames. The code does divide: \<open>_update_progress\<close> raises \<open>ZeroDivisionError\<close> for
  \<open>total = 0\<close>, whatever the page and the current count are, and \<open>VideoDetector.detect\<close> on a
  video that reports zero frames and has a readable frame ends with that exception.
\<close>

theorem progress_division_by_zero:
  "update_progress page1 current 0 = Inl ZeroDivisionError
   \<and> (prop_frame_count (VideoCapture cv (files w video_path)) = 0
        \<and> readable (VideoCapture cv (files w video_path)) \<noteq> [] \<longrightarrow>
      fst (detect cv det video_path w page0) = Inl ZeroDivisionError)"
proof (intro conjI impI)
  show "update_progress page1 current 0 = Inl ZeroDivisionError"
    by (simp add: update_progress_def)
  assume a: "prop_frame_count (VideoCapture cv (files w video_path)) = 0
        \<and> readable (VideoCapture cv (files w video_path)) \<noteq> []"
  then obtain frame rest where "readable (VideoCapture cv (files w video_path)) = frame # rest"
    by (cases "readable (VideoCapture cv (files w video_path))") auto
  then have "fst (process_frames det (VideoCapture cv (files w video_path)) [] 0 page0) = Inl ZeroDivisionError"
    by (simp add: process_frames_zero)
  with a show "fst (detect cv det video_path w page0) = Inl ZeroDivisionError"
    by (simp add: detect_frames_raise)
qed

theorem progress_division_by_zero_witness:
  "prop_frame_count (VideoCapture stub_cv
      (files (stub_os (map char_of [0::nat, 0, 1]) {} NotInstalled) ''/upload.mp4'')) = 0
   \<and> readable (VideoCapture stub_cv
      (files (stub_os (map char_of [0::nat, 0, 1]) {} NotInstalled) ''/upload.mp4'')) = [0, 1]
   \<and> fst (detect stub_cv stub_detector ''/upload.mp4''
            (stub_os (map char_of [0::nat, 0, 1]) {} NotInstalled) blank_page) = Inl ZeroDivisionError
   \<and> fst (detect stub_cv stub_detector ''/upload.mp4''
            (stub_os (map char_of [2::nat, 0, 1]) {} NotInstalled) blank_page)
       = Inr \<lparr>output_path = ''/tmp/tmp1.mp4'', video_statistics = [(''Car'', 2)]\<rparr>"
proof -
  have c: "prop_frame_count (VideoCapture stub_cv
      (files (stub_os (map char_of [0::nat, 0, 1]) {} NotInstalled) ''/upload.mp4'')) = 0"
    by (simp add: stub_cv_def stub_os_def)
  have r: "readable (VideoCapture stub_cv
      (files (stub_os (map char_of [0::nat, 0, 1]) {} NotInstalled) ''/upload.mp4'')) = [0, 1]"
    by (simp add: stub_cv_def stub_os_def readable_def)
  have ok: "fst (detect stub_cv stub_detector ''/upload.mp4''
            (stub_os (map char_of [2::nat, 0, 1]) {} NotInstalled) blank_page)
       = Inr \<lparr>output_path = ''/tmp/tmp1.mp4'', video_statistics = [(''Car'', 2)]\<rparr>"
    by code_simp
  show ?thesis
    using progress_division_by_zero [of blank_page 1 stub_cv
        "stub_os (map char_of [0::nat, 0, 1]) {} NotInstalled" "''/upload.mp4''" stub_detector blank_page]
      c r ok
    by simp
qed

text \<open>
  With a positive frame count that is not below the number of readable frames, the loop runs
  until the capture has no frame left, and the sink receives the annotated frames in the
  order of the input.
\<close>

lemma frame_order_preserved:
  "0 < total' \<Longrightarrow> int (length (readable cap)) \<le> total' \<Longrightarrow>
     fst (process_frames det cap sink total' page0) =
       Inr (foldl merge_statistics [] (map (\<lambda>frame. snd (run_inference det frame)) (readable cap)))
     \<and> out (snd (process_frames det cap sink total' page0)) =
         sink @ map (\<lambda>frame. fst (run_inference det frame)) (readable cap)"
  by (simp add: process_frames_accepted drain_out)

text \<open>
  Claim C7 says that the drain loop ends only when no frame can be read, whatever the advisory
  frame count is, and that every input frame reaches the output. With an advisory count of
  zero the loop ends in the first iteration, by the exception of \<open>_update_progress\<close>: the sink
  holds the first annotated frame and nothing else, and the bar was only created.
\<close>

theorem drain_loop_zero_total:
  "readable cap = frame # rest \<Longrightarrow>
     fst (process_frames det cap sink 0 page0) = Inl ZeroDivisionError
     \<and> out (snd (process_frames det cap sink 0 page0)) = sink @ [fst (run_inference det frame)]
     \<and> progress_values (page (snd (process_frames det cap sink 0 page0))) = progress_values page0 @ [0]"
  by (simp add: process_frames_zero)

theorem drain_loop_zero_total_witness:
  "readable (synthetic_video 3 0) = [0, 1, 2]
   \<and> fst (process_frames stub_detector (synthetic_video 3 0) [] 0 blank_page) = Inl ZeroDivisionError
   \<and> out (snd (process_frames stub_detector (synthetic_video 3 0) [] 0 blank_page)) = [100]"
proof -
  have r: "readable (synthetic_video 3 0) = [0, 1, 2]"
    by (simp add: readable_def synthetic_video_def upt_rec)
  have a: "fst (run_inference stub_detector 0) = 100"
    by (simp add: run_inference_def stub_detector_def stub_model_def Let_def)
  show ?thesis
    using drain_loop_zero_total [of "synthetic_video 3 0" 0 "[1, 2]" stub_detector "[]" blank_page] r a
    by simp
qed

section \<open>Positive counts\<close>

lemma keys_Nil: "keys [] = []"
  by (simp add: keys_def)

lemma positive_counts_iff: "positive_counts d \<longleftrightarrow> (\<forall>(k, v) \<in> set d. 0 < v)"
  by (simp add: positive_counts_def list_all_iff)

lemma positive_dict_set:
  "positive_counts d \<Longrightarrow> 0 < v \<Longrightarrow> positive_counts (dict_set k v d)"
  by (induction d) (auto simp: positive_counts_def)

lemma dict_get_nonneg: "positive_counts d \<Longrightarrow> 0 \<le> dict_get d k 0"
proof (cases "map_of d k")
  case None
  then show ?thesis by (simp add: dict_get_def)
next
  case (Some v)
  assume "positive_counts d"
  moreover from Some have "(k, v) \<in> set d" by (rule map_of_SomeD)
  ultimately have "0 < v" by (auto simp: positive_counts_iff)
  with Some show ?thesis by (simp add: dict_get_def)
qed

lemma positive_count_boxes:
  "positive_counts st \<Longrightarrow> positive_counts (count_boxes bs st)"
proof (induction bs arbitrary: st)
  case Nil
  then show ?case by simp
next
  case (Cons b bs)
  from Cons.prems have "0 < dict_get st (get_class_name (cls b)) 0 + 1"
    using dict_get_nonneg [of st "get_class_name (cls b)"] by simp
  with Cons show ?case by (simp add: Let_def positive_dict_set)
qed

lemma positive_extract_statistics: "positive_counts (extract_statistics detections)"
  unfolding extract_statistics_eq by (rule positive_count_boxes) (simp add: positive_counts_def)

lemma positive_merge_statistics:
  "positive_counts tot \<Longrightarrow> positive_counts fs \<Longrightarrow> positive_counts (merge_statistics tot fs)"
proof (induction fs arbitrary: tot)
  case Nil
  then show ?case by simp
next
  case (Cons item items)
  obtain k c where item: "item = (k, c)" by (cases item)
  from Cons.prems item have c: "0 < c" and items: "positive_counts items"
    by (simp_all add: positive_counts_def)
  from Cons.prems(1) c have "0 < dict_get tot k 0 + c"
    using dict_get_nonneg [of tot k] by simp
  with Cons.prems(1) have "positive_counts (dict_set k (dict_get tot k 0 + c) tot)"
    by (simp add: positive_dict_set)
  with Cons.IH items item show ?case by simp
qed

lemma merge_statistics_increasing:
  "positive_counts fs \<Longrightarrow> dict_get tot n 0 \<le> dict_get (merge_statistics tot fs) n 0"
proof (induction fs arbitrary: tot)
  case Nil
  then show ?case by simp
next
  case (Cons item items)
  obtain k c where item: "item = (k, c)" by (cases item)
  from Cons.prems item have c: "0 < c" and items: "positive_counts items"
    by (simp_all add: positive_counts_def)
  have "dict_get tot n 0 \<le> dict_get (dict_set k (dict_get tot k 0 + c) tot) n 0"
    using c by (simp add: dict_get_dict_set)
  also have "\<dots> \<le> dict_get (merge_statistics (dict_set k (dict_get tot k 0 + c) tot) items) n 0"
    using items by (rule Cons.IH)
  finally show ?case using item by simp
qed

lemma positive_foldl_merge:
  "positive_counts tot \<Longrightarrow> \<forall>T \<in> set Ts. positive_counts T \<Longrightarrow>
     positive_counts (foldl merge_statistics tot Ts)"
  by (induction Ts arbitrary: tot) (simp_all add: positive_merge_statistics)

lemma positive_run_inference: "positive_counts (snd (run_inference det frame))"
  by (simp add: run_inference_def Let_def positive_extract_statistics)

text \<open>
  Claim C10. Every count in a table of \<open>_extract_statistics\<close> is strictly positive, and a
  class name is a key of the table exactly when some box resolves to it. Merging a table of
  positive counts into a table of positive counts gives positive counts, lowers the count of
  no name, and has exactly the keys of the two tables. Every table \<open>_process_frames\<close>
  returns has positive counts, and its keys are exactly the names of the boxes the engine
  returned for some frame.
\<close>

theorem statistics_counts_positive:
  "positive_counts (extract_statistics detections)
   \<and> (class_name \<in> set (keys (extract_statistics detections)) \<longleftrightarrow>
        (\<exists>b \<in> set (boxes_of detections). get_class_name (cls b) = class_name))
   \<and> (positive_counts totals \<and> positive_counts frame_stats \<longrightarrow>
        positive_counts (merge_statistics totals frame_stats)
        \<and> dict_get totals class_name 0 \<le> dict_get (merge_statistics totals frame_stats) class_name 0
        \<and> (class_name \<in> set (keys (merge_statistics totals frame_stats)) \<longleftrightarrow>
             class_name \<in> set (keys totals) \<or> class_name \<in> set (keys frame_stats)))
   \<and> (\<forall>cumulative. fst (process_frames det cap sink total' page0) = Inr cumulative \<longrightarrow>
        positive_counts cumulative
        \<and> (class_name \<in> set (keys cumulative) \<longleftrightarrow>
             (\<exists>frame \<in> set (readable cap).
                \<exists>b \<in> set (boxes_of (boxes (model det frame (confidence det)
                                   (if truthy (classes det) then classes det else None)))).
                  get_class_name (cls b) = class_name)))"
proof (intro conjI allI impI)
  show "positive_counts (extract_statistics detections)"
    by (rule positive_extract_statistics)
  show "class_name \<in> set (keys (extract_statistics detections)) \<longleftrightarrow>
        (\<exists>b \<in> set (boxes_of detections). get_class_name (cls b) = class_name)"
    by (auto simp: extract_statistics_eq keys_count_boxes keys_Nil)
next
  assume "positive_counts totals \<and> positive_counts frame_stats"
  then show "positive_counts (merge_statistics totals frame_stats)"
    and "dict_get totals class_name 0 \<le> dict_get (merge_statistics totals frame_stats) class_name 0"
    by (simp_all add: positive_merge_statistics merge_statistics_increasing)
  show "class_name \<in> set (keys (merge_statistics totals frame_stats)) \<longleftrightarrow>
             class_name \<in> set (keys totals) \<or> class_name \<in> set (keys frame_stats)"
    by (simp add: keys_merge_statistics)
next
  fix cumulative
  assume "fst (process_frames det cap sink total' page0) = Inr cumulative"
  then have c: "cumulative =
      foldl merge_statistics [] (map (\<lambda>frame. snd (run_inference det frame)) (readable cap))"
    by (rule process_frames_Inr)
  show "positive_counts cumulative"
    unfolding c by (rule positive_foldl_merge) (simp_all add: positive_counts_def [of "[]"] positive_run_inference)
  show "class_name \<in> set (keys cumulative) \<longleftrightarrow>
             (\<exists>frame \<in> set (readable cap).
                \<exists>b \<in> set (boxes_of (boxes (model det frame (confidence det)
                                   (if truthy (classes det) then classes det else None)))).
                  get_class_name (cls b) = class_name)"
    unfolding c keys_foldl_merge
    by (auto simp: run_inference_def Let_def extract_statistics_eq keys_count_boxes keys_Nil)
qed

theorem statistics_counts_positive_witness:
  "positive_counts [(''Car'', 2)] \<and> positive_counts [(''Human'', 1), (''Car'', 3)]
   \<and> merge_statistics [(''Car'', 2)] [(''Human'', 1), (''Car'', 3)] = [(''Car'', 5), (''Human'', 1)]
   \<and> positive_counts (merge_statistics [(''Car'', 2)] [(''Human'', 1), (''Car'', 3)])
   \<and> dict_get [(''Car'', 2)] ''Car'' 0 \<le> dict_get (merge_statistics [(''Car'', 2)] [(''Human'', 1), (''Car'', 3)]) ''Car'' 0
   \<and> fst (process_frames stub_detector (synthetic_video 7 7) [] 7 blank_page) = Inr [(''Car'', 5)]
   \<and> positive_counts [(''Car'', 5)]"
proof -
  have p1: "positive_counts [(''Car'', 2)]" and p2: "positive_counts [(''Human'', 1), (''Car'', 3)]"
    by (simp_all add: positive_counts_def)
  have m: "merge_statistics [(''Car'', 2)] [(''Human'', 1), (''Car'', 3)] = [(''Car'', 5), (''Human'', 1)]"
    by code_simp
  have run: "fst (process_frames stub_detector (synthetic_video 7 7) [] 7 blank_page) = Inr [(''Car'', 5)]"
    by code_simp
  show ?thesis
    using statistics_counts_positive [of None "''Car''" "[(''Car'', 2)]" "[(''Human'', 1), (''Car'', 3)]"
        stub_detector "synthetic_video 7 7" "[]" 7 blank_page] p1 p2 run
    by (simp add: m dict_get_def)
qed

section \<open>The transcode step\<close>

lemma tmp_name_suffix: "tmp_name w ''.mp4'' \<noteq> tmp_name w' ''.avi''"
proof
  assume "tmp_name w ''.mp4'' = tmp_name w' ''.avi''"
  then have "last (tmp_name w ''.mp4'') = last (tmp_name w' ''.avi'')" by simp
  then show False by (simp add: tmp_name_def)
qed

lemma convert_to_h264_returns:
  assumes "files w input_path = Some stored" and "tmp_name w ''.mp4'' \<noteq> input_path"
  shows "\<exists>w'. convert_to_h264 w input_path = (Inr (tmp_name w ''.mp4''), w')
               \<and> files w' input_path = Some stored
               \<and> undeletable w' = undeletable w
               \<and> (transcode_fails w input_path \<longrightarrow> files w' (tmp_name w ''.mp4'') = Some stored)"
proof (cases "ffmpeg w")
  case NotInstalled
  with assms show ?thesis
    by (auto simp: convert_to_h264_def NamedTemporaryFile_def subprocess_run_ffmpeg_def
        shutil_copy_def Let_def)
next
  case (Installed run)
  show ?thesis
  proof (cases "run (Some stored)")
    case (Exit0 written)
    with Installed assms show ?thesis
      by (auto simp: convert_to_h264_def NamedTemporaryFile_def subprocess_run_ffmpeg_def
          shutil_copy_def transcode_fails_def Let_def)
  next
    case (ExitNonzero written)
    with Installed assms show ?thesis
      by (auto simp: convert_to_h264_def NamedTemporaryFile_def subprocess_run_ffmpeg_def
          shutil_copy_def transcode_fails_def Let_def)
  qed
qed

text \<open>
  Claim C6. When the transcoder is absent or exits with a failure status, \<open>_convert_to_h264\<close>
  on an existing intermediate file returns the path of the new temporary file instead of
  raising, that file holds exactly the bytes of the intermediate, and the intermediate is
  unchanged. The temporary file is a new file, so its path is not the intermediate's.
\<close>

theorem transcode_degrades:
  assumes "transcode_fails w input_path"
    and "files w input_path = Some stored"
    and "tmp_name w ''.mp4'' \<noteq> input_path"
  shows "fst (convert_to_h264 w input_path) = Inr (tmp_name w ''.mp4'')
         \<and> files (snd (convert_to_h264 w input_path)) (tmp_name w ''.mp4'') = Some stored
         \<and> files (snd (convert_to_h264 w input_path)) input_path = Some stored"
  using convert_to_h264_returns [OF assms(2,3)] assms(1) by auto

theorem transcode_degrades_witness:
  "transcode_fails (stub_os ''raw frames'' {} NotInstalled) ''/upload.mp4''
   \<and> files (stub_os ''raw frames'' {} NotInstalled) ''/upload.mp4'' = Some ''raw frames''
   \<and> tmp_name (stub_os ''raw frames'' {} NotInstalled) ''.mp4'' = ''/tmp/tmp0.mp4''
   \<and> fst (convert_to_h264 (stub_os ''raw frames'' {} NotInstalled) ''/upload.mp4'') = Inr ''/tmp/tmp0.mp4''
   \<and> files (snd (convert_to_h264 (stub_os ''raw frames'' {} NotInstalled) ''/upload.mp4'')) ''/tmp/tmp0.mp4''
       = Some ''raw frames''"
proof -
  have f: "transcode_fails (stub_os ''raw frames'' {} NotInstalled) ''/upload.mp4''"
    by (simp add: transcode_fails_def stub_os_def)
  have s: "files (stub_os ''raw frames'' {} NotInstalled) ''/upload.mp4'' = Some ''raw frames''"
    by (simp add: stub_os_def)
  have n: "tmp_name (stub_os ''raw frames'' {} NotInstalled) ''.mp4'' = ''/tmp/tmp0.mp4''"
    by code_simp
  have d: "tmp_name (stub_os ''raw frames'' {} NotInstalled) ''.mp4'' \<noteq> ''/upload.mp4''"
    unfolding n by simp
  show ?thesis
    using transcode_degrades [OF f s d] f s n by simp
qed

section \<open>The model cache\<close>

lemma load_model_stores:
  "load_model rt model_path = (Inr m, rt1) \<Longrightarrow> resource_cache rt1 model_path = Some m"
  by (auto simp: load_model_def cache_resource_def split: option.splits prod.splits sum.splits)

lemma load_model_hit:
  "resource_cache rt model_path = Some m \<Longrightarrow> load_model rt model_path = (Inr m, rt)"
  by (simp add: load_model_def cache_resource_def)

lemma load_model_body_cache:
  "resource_cache (snd (load_model_body rt other)) = resource_cache rt"
  by (simp add: load_model_body_def Let_def split: option.splits)

lemma load_model_keeps:
  assumes "resource_cache rt model_path = Some m"
  shows "resource_cache (snd (load_model rt other)) model_path = Some m"
proof (cases "resource_cache rt other")
  case (Some stored)
  with assms show ?thesis by (simp add: load_model_def cache_resource_def)
next
  case None
  with assms have ne: "other \<noteq> model_path" by auto
  obtain r rt' where b: "load_model_body rt other = (r, rt')"
    by (cases "load_model_body rt other")
  with load_model_body_cache [of rt other] have c: "resource_cache rt' = resource_cache rt" by simp
  show ?thesis
    using None b c ne assms
    by (cases r) (simp_all add: load_model_def cache_resource_def)
qed

text \<open>
  Claim C8. When \<open>load_model\<close> has returned a model for a path, a second call with the same
  path returns the same object and leaves the runtime as it is: nothing is deserialized and
  nothing is bound to a device again. This still holds after a load of any other path.
\<close>

theorem load_model_cached:
  assumes "load_model rt model_path = (Inr m, rt1)"
  shows "load_model rt1 model_path = (Inr m, rt1)
         \<and> (\<forall>other. load_model (snd (load_model rt1 other)) model_path =
                      (Inr m, snd (load_model rt1 other)))"
proof -
  from assms have stored: "resource_cache rt1 model_path = Some m"
    by (rule load_model_stores)
  then have "load_model rt1 model_path = (Inr m, rt1)"
    by (rule load_model_hit)
  moreover have "load_model (snd (load_model rt1 other)) model_path =
                      (Inr m, snd (load_model rt1 other))" for other
    using load_model_keeps [OF stored, of other] by (rule load_model_hit)
  ultimately show ?thesis by simp
qed

theorem load_model_cached_witness:
  "fst (load_model stub_runtime ''models/best.pt'') =
     Inr \<lparr>object_id = 0, weights_path = ''models/best.pt'', device = Some ''cpu''\<rparr>
   \<and> constructed (snd (load_model stub_runtime ''models/best.pt'')) = 1
   \<and> bound_to_device (snd (load_model stub_runtime ''models/best.pt'')) = 1
   \<and> load_model (snd (load_model stub_runtime ''models/best.pt'')) ''models/best.pt'' =
       (Inr \<lparr>object_id = 0, weights_path = ''models/best.pt'', device = Some ''cpu''\<rparr>,
        snd (load_model stub_runtime ''models/best.pt''))"
proof -
  have r: "fst (load_model stub_runtime ''models/best.pt'') =
     Inr \<lparr>object_id = 0, weights_path = ''models/best.pt'', device = Some ''cpu''\<rparr>"
    by (simp add: load_model_def cache_resource_def load_model_body_def stub_runtime_def
        get_device_def Let_def)
  have c: "constructed (snd (load_model stub_runtime ''models/best.pt'')) = 1"
    and b: "bound_to_device (snd (load_model stub_runtime ''models/best.pt'')) = 1"
    by (simp_all add: load_model_def cache_resource_def load_model_body_def stub_runtime_def
        get_device_def Let_def)
  have first: "load_model stub_runtime ''models/best.pt'' =
     (Inr \<lparr>object_id = 0, weights_path = ''models/best.pt'', device = Some ''cpu''\<rparr>,
      snd (load_model stub_runtime ''models/best.pt''))"
    using r by (simp add: prod_eq_iff)
  show ?thesis
    using load_model_cached [OF first] r c b by simp
qed

section \<open>Removing temporary files\<close>

lemma cleanup_loop_files:
  "files (cleanup_loop file_paths w) p =
     (if p \<in> set file_paths \<and> p \<notin> undeletable w then None else files w p)
   \<and> undeletable (cleanup_loop file_paths w) = undeletable w"
proof (induction file_paths arbitrary: w p)
  case Nil
  then show ?case by simp
next
  case (Cons q qs)
  show ?case
    by (simp add: Cons.IH os_path_exists_def os_unlink_def Let_def)
qed

lemma detect_after_frames:
  assumes frames: "process_frames det (VideoCapture cv (files w video_path)) []
                     (prop_frame_count (VideoCapture cv (files w video_path))) page0 = (Inr totals, s)"
  shows "fst (detect cv det video_path w page0) =
           (if tmp_name w ''.avi'' \<in> undeletable w then Inl PermissionError
            else Inr \<lparr>output_path = tmp_name (w\<lparr>tmp_counter := tmp_counter w + 1\<rparr>) ''.mp4'',
                      video_statistics = totals\<rparr>)"
proof -
  define temp where "temp = tmp_name w ''.avi''"
  define w2 where "w2 = (snd (NamedTemporaryFile w ''.avi''))
      \<lparr>files := (files (snd (NamedTemporaryFile w ''.avi'')))(temp \<mapsto> VideoWriter_encode cv (out s))\<rparr>"
  have name: "tmp_name w2 ''.mp4'' = tmp_name (w\<lparr>tmp_counter := tmp_counter w + 1\<rparr>) ''.mp4''"
    by (simp add: w2_def tmp_name_def NamedTemporaryFile_def Let_def)
  have w2_locked: "undeletable w2 = undeletable w"
    by (simp add: w2_def NamedTemporaryFile_def Let_def)
  have "files w2 temp = Some (VideoWriter_encode cv (out s))"
    by (simp add: w2_def)
  moreover have "tmp_name w2 ''.mp4'' \<noteq> temp"
    unfolding temp_def by (rule tmp_name_suffix)
  ultimately obtain w3 where conv: "convert_to_h264 w2 temp = (Inr (tmp_name w2 ''.mp4''), w3)"
    and kept: "files w3 temp = Some (VideoWriter_encode cv (out s))"
    and locked: "undeletable w3 = undeletable w2"
    using convert_to_h264_returns [of w2 temp "VideoWriter_encode cv (out s)"] by blast
  have tmp: "NamedTemporaryFile w ''.avi'' = (temp, snd (NamedTemporaryFile w ''.avi''))"
    by (simp add: temp_def NamedTemporaryFile_def Let_def)
  have "detect cv det video_path w page0 =
          (case convert_to_h264 w2 temp of
             (Inl e, w3) \<Rightarrow> (Inl e, w3, page s)
           | (Inr final_output, w3) \<Rightarrow>
               if os_path_exists w3 temp then
                 (case os_unlink w3 temp of
                    (Inl e, w4) \<Rightarrow> (Inl e, w4, page s)
                  | (Inr u, w4) \<Rightarrow>
                      (Inr \<lparr>output_path = final_output, video_statistics = totals\<rparr>, w4, page s))
               else (Inr \<lparr>output_path = final_output, video_statistics = totals\<rparr>, w3, page s))"
    unfolding detect_def get_video_properties_def Let_def w2_def
    by (subst tmp) (simp add: frames)
  then have "detect cv det video_path w page0 =
          (case os_unlink w3 temp of
             (Inl e, w4) \<Rightarrow> (Inl e, w4, page s)
           | (Inr u, w4) \<Rightarrow>
               (Inr \<lparr>output_path = tmp_name w2 ''.mp4'', video_statistics = totals\<rparr>, w4, page s))"
    using kept by (simp add: conv os_path_exists_def)
  then show ?thesis
    using kept locked w2_locked by (simp add: os_unlink_def name temp_def)
qed

lemma render_propagates:
  assumes "fst (detect cv det (fst (save_uploaded_video w uploaded))
                  (snd (save_uploaded_video w uploaded)) page0) = Inl e"
  shows "fst (render cv det (Some uploaded) True w page0) = Inl e"
  using assms
  by (auto simp: render_def Let_def split: prod.splits sum.splits)

text \<open>
  Claim C9 says that no failure to delete a temporary file reaches the caller. The loop of
  \<open>_cleanup_temp_files\<close> does swallow a refused removal (\<open>cleanup_loop_files\<close>), but
  \<open>VideoDetector.detect\<close> removes its intermediate file outside any \<open>try\<close>: when
  \<open>_process_frames\<close> has returned its table and the system refuses to remove the
  intermediate, \<open>detect\<close> ends with \<open>PermissionError\<close>, and so does the \<open>render\<close> that called
  it.
\<close>

theorem intermediate_deletion_not_swallowed:
  assumes "fst (process_frames det (VideoCapture cv (files w video_path)) []
                  (prop_frame_count (VideoCapture cv (files w video_path))) page0) = Inr totals"
    and "tmp_name w ''.avi'' \<in> undeletable w"
  shows "fst (detect cv det video_path w page0) = Inl PermissionError
         \<and> (video_path = fst (save_uploaded_video w0 uploaded)
              \<and> w = snd (save_uploaded_video w0 uploaded) \<longrightarrow>
            fst (render cv det (Some uploaded) True w0 page0) = Inl PermissionError)"
proof -
  let ?cap = "VideoCapture cv (files w video_path)"
  from assms(1) have "process_frames det ?cap [] (prop_frame_count ?cap) page0 =
      (Inr totals, snd (process_frames det ?cap [] (prop_frame_count ?cap) page0))"
    by (simp add: prod_eq_iff)
  from detect_after_frames [OF this] assms(2)
  have refused: "fst (detect cv det video_path w page0) = Inl PermissionError"
    by simp
  then have "fst (render cv det (Some uploaded) True w0 page0) = Inl PermissionError"
    if "video_path = fst (save_uploaded_video w0 uploaded)"
      and "w = snd (save_uploaded_video w0 uploaded)"
    using that by (simp add: render_propagates)
  with refused show ?thesis by simp
qed

theorem intermediate_deletion_not_swallowed_witness:
  "fst (save_uploaded_video (stub_os [] {''/tmp/tmp1.avi''} NotInstalled) (map char_of [2::nat, 0, 1]))
     = ''/tmp/tmp0.mp4''
   \<and> tmp_name (snd (save_uploaded_video (stub_os [] {''/tmp/tmp1.avi''} NotInstalled)
                      (map char_of [2::nat, 0, 1]))) ''.avi'' = ''/tmp/tmp1.avi''
   \<and> fst (process_frames stub_detector
            (VideoCapture stub_cv (Some (map char_of [2::nat, 0, 1]))) [] 2 blank_page)
       = Inr [(''Car'', 2)]
   \<and> fst (render stub_cv stub_detector (Some (map char_of [2::nat, 0, 1])) True
            (stub_os [] {''/tmp/tmp1.avi''} NotInstalled) blank_page) = Inl PermissionError
   \<and> fst (render stub_cv stub_detector (Some (map char_of [2::nat, 0, 1])) True
            (stub_os [] {} NotInstalled) blank_page) = Inr (Some [(''Car'', 2)])"
proof -
  let ?w0 = "stub_os [] {''/tmp/tmp1.avi''} NotInstalled"
  let ?up = "map char_of [2::nat, 0, 1]"
  have p: "fst (save_uploaded_video ?w0 ?up) = ''/tmp/tmp0.mp4''"
    by code_simp
  have n: "tmp_name (snd (save_uploaded_video ?w0 ?up)) ''.avi'' = ''/tmp/tmp1.avi''"
    by code_simp
  have f: "files (snd (save_uploaded_video ?w0 ?up)) (fst (save_uploaded_video ?w0 ?up)) = Some ?up"
    by (simp add: save_uploaded_video_def NamedTemporaryFile_def Let_def)
  have c: "prop_frame_count (VideoCapture stub_cv (Some ?up)) = 2"
    by (simp add: stub_cv_def)
  have t: "fst (process_frames stub_detector (VideoCapture stub_cv (Some ?up)) [] 2 blank_page)
             = Inr [(''Car'', 2)]"
    by code_simp
  have u: "tmp_name (snd (save_uploaded_video ?w0 ?up)) ''.avi''
             \<in> undeletable (snd (save_uploaded_video ?w0 ?up))"
    unfolding n by (simp add: save_uploaded_video_def NamedTemporaryFile_def stub_os_def Let_def)
  have ok: "fst (render stub_cv stub_detector (Some ?up) True (stub_os [] {} NotInstalled) blank_page)
              = Inr (Some [(''Car'', 2)])"
    by code_simp
  from t have t': "fst (process_frames stub_detector
        (VideoCapture stub_cv (files (snd (save_uploaded_video ?w0 ?up)) (fst (save_uploaded_video ?w0 ?up))))
        [] (prop_frame_count (VideoCapture stub_cv
              (files (snd (save_uploaded_video ?w0 ?up)) (fst (save_uploaded_video ?w0 ?up)))))
        blank_page) = Inr [(''Car'', 2)]"
    unfolding f c .
  show ?thesis
    using intermediate_deletion_not_swallowed [OF t' u, where ?w0.0 = ?w0 and uploaded = ?up] p n t ok
    by simp
qed

end
